theory Spec2Isabelle
  imports Main
begin

section \<open>The snake game of snake.go\<close>

text \<open>
  The game keeps its state in package-level variables (\<^verbatim>\<open>snake\<close>, \<^verbatim>\<open>food\<close>,
  \<^verbatim>\<open>direction\<close>, \<^verbatim>\<open>gameOver\<close>, \<^verbatim>\<open>score\<close>). They are the first five fields
  of the record \<open>game\<close>, which every function takes and returns. Two parts of the
  environment that the functions read or write are fields as well:
  \<^item> the random source behind \<^verbatim>\<open>rand.Intn\<close>: \<open>rnd\<close> is the sequence of raw values it will
    produce and \<open>used\<close> counts the calls made so far;
  \<^item> the terminal: \<open>screen\<close> is the list of frames that \<^verbatim>\<open>draw\<close> has flushed, oldest first.

  Go's \<^verbatim>\<open>int\<close> is a 64-bit integer. Coordinates and the score are modelled as \<open>int\<close>:
  lemma \<open>reached_bounds\<close> below shows that in every state the program reaches the
  coordinates stay within \<open>-1 .. 25\<close> and the score within \<open>0 .. 5000\<close>, far from any
  wrap-around.
\<close>

definition width :: int where
  "width = 25"

definition height :: int where
  "height = 20"

record Position =
  X :: int
  Y :: int

record frame =
  shownSnake :: "Position list"
  shownFood :: Position
  shownScore :: int
  shownGameOver :: bool

record game =
  snake :: "Position list"
  food :: Position
  direction :: string
  gameOver :: bool
  score :: int
  rnd :: "nat \<Rightarrow> nat"
  used :: nat
  screen :: "frame list"

text \<open>
  Two ways in which a call does not return a state: a slice index out of range
  (\<^verbatim>\<open>snake[0]\<close> on an empty slice panics) and a loop that never ends.
\<close>

datatype fault = IndexOutOfRange | NeverReturns

subsection \<open>placeFood\<close>

text \<open>
  \<^verbatim>\<open>rand.Intn(n)\<close> returns a value in \<open>[0, n)\<close> for \<open>n > 0\<close>; both calls in the program
  pass a positive constant. The model reduces the next raw value of the source into
  that range and advances the source by one.
\<close>

definition Intn :: "int \<Rightarrow> game \<Rightarrow> int \<times> game" where
  "Intn n g = (int (rnd g (used g)) mod n, g\<lparr>used := used g + 1\<rparr>)"

text \<open>The inner loop of \<^verbatim>\<open>placeFood\<close>: \<^verbatim>\<open>validPosition\<close> after scanning the segments.\<close>

fun validPosition :: "Position \<Rightarrow> Position list \<Rightarrow> bool" where
  "validPosition f [] = True"
| "validPosition f (segment # rest) =
     (if X f = X segment \<and> Y f = Y segment then False else validPosition f rest)"

text \<open>
  The outer loop has no bound and no other exit than a valid position, so it is a
  partial function: \<open>None\<close> says that the call never returns. The variable \<^verbatim>\<open>food\<close> is
  assigned in every iteration, before the check.
\<close>

partial_function (option) placeFood :: "game \<Rightarrow> game option" where
  "placeFood g =
     (case Intn width g of (x, g1) \<Rightarrow>
      case Intn height g1 of (y, g2) \<Rightarrow>
        let g3 = g2\<lparr>food := \<lparr>X = x, Y = y\<rparr>\<rparr>
        in if validPosition (food g3) (snake g3) then Some g3 else placeFood g3)"

subsection \<open>handleInput\<close>

definition handleInput :: "string \<Rightarrow> game \<Rightarrow> game" where
  "handleInput key g =
     (if key = ''UP'' then (if direction g \<noteq> ''DOWN'' then g\<lparr>direction := key\<rparr> else g)
      else if key = ''DOWN'' then (if direction g \<noteq> ''UP'' then g\<lparr>direction := key\<rparr> else g)
      else if key = ''LEFT'' then (if direction g \<noteq> ''RIGHT'' then g\<lparr>direction := key\<rparr> else g)
      else if key = ''RIGHT'' then (if direction g \<noteq> ''LEFT'' then g\<lparr>direction := key\<rparr> else g)
      else g)"

subsection \<open>move\<close>

text \<open>The \<^verbatim>\<open>switch direction\<close> of \<^verbatim>\<open>move\<close>, applied to the copy of the head.\<close>

definition newHead :: "string \<Rightarrow> Position \<Rightarrow> Position" where
  "newHead d head =
     (let h = \<lparr>X = X head, Y = Y head\<rparr>
      in if d = ''UP'' then h\<lparr>Y := Y h - 1\<rparr>
         else if d = ''DOWN'' then h\<lparr>Y := Y h + 1\<rparr>
         else if d = ''LEFT'' then h\<lparr>X := X h - 1\<rparr>
         else if d = ''RIGHT'' then h\<lparr>X := X h + 1\<rparr>
         else h)"

text \<open>\<^verbatim>\<open>snake[:len(snake)-1]\<close> is \<open>butlast\<close>; the slice is never empty there.\<close>

definition move :: "game \<Rightarrow> fault + game" where
  "move g =
     (case snake g of
        [] \<Rightarrow> Inl IndexOutOfRange
      | head # _ \<Rightarrow>
          let h = newHead (direction g) head;
              g1 = g\<lparr>snake := h # snake g\<rparr>
          in if X h = X (food g1) \<and> Y h = Y (food g1)
             then (case placeFood (g1\<lparr>score := score g1 + 10\<rparr>) of
                     None \<Rightarrow> Inl NeverReturns
                   | Some g2 \<Rightarrow> Inr g2)
             else Inr (g1\<lparr>snake := butlast (snake g1)\<rparr>))"

subsection \<open>checkCollisions\<close>

text \<open>
  The self-collision loop runs over \<^verbatim>\<open>snake[1:]\<close> without a \<^verbatim>\<open>break\<close>; the third
  argument is \<^verbatim>\<open>gameOver\<close> as the loop finds it.
\<close>

fun selfCollision :: "Position \<Rightarrow> Position list \<Rightarrow> bool \<Rightarrow> bool" where
  "selfCollision head [] over = over"
| "selfCollision head (segment # rest) over =
     selfCollision head rest
       (if X head = X segment \<and> Y head = Y segment then True else over)"

definition checkCollisions :: "game \<Rightarrow> fault + game" where
  "checkCollisions g =
     (case snake g of
        [] \<Rightarrow> Inl IndexOutOfRange
      | head # segments \<Rightarrow>
          let g1 = (if X head < 0 \<or> X head \<ge> width \<or> Y head < 0 \<or> Y head \<ge> height
                    then g\<lparr>gameOver := True\<rparr> else g)
          in Inr (g1\<lparr>gameOver := selfCollision head segments (gameOver g1)\<rparr>))"

subsection \<open>draw\<close>

text \<open>
  \<^verbatim>\<open>draw\<close> clears the terminal, draws the border, the snake, the food, the score and,
  when \<^verbatim>\<open>gameOver\<close> is set, the game-over box, then flushes. The frame it shows is
  determined by these four variables; the model appends it to \<open>screen\<close>.
\<close>

definition frameOf :: "game \<Rightarrow> frame" where
  "frameOf g =
     \<lparr>shownSnake = snake g, shownFood = food g,
      shownScore = score g, shownGameOver = gameOver g\<rparr>"

definition draw :: "game \<Rightarrow> game" where
  "draw g = g\<lparr>screen := screen g @ [frameOf g]\<rparr>"

subsection \<open>gameLoop, initializeGame, main\<close>

text \<open>
  One iteration of the \<^verbatim>\<open>select\<close> in \<^verbatim>\<open>gameLoop\<close> receives from the ticker, from
  \<^verbatim>\<open>inputCh\<close> or from \<^verbatim>\<open>quitCh\<close>. The loop is modelled on the list of the events it
  receives, in the order in which it receives them; the result is the state once
  they are handled (or once the loop has returned on \<open>Quit\<close>).
\<close>

datatype event = Tick | Input string | Quit

text \<open>The body of \<^verbatim>\<open>case <-ticker.C\<close>.\<close>

definition onTick :: "game \<Rightarrow> fault + game" where
  "onTick g =
     (if \<not> gameOver g
      then (case move g of
              Inl e \<Rightarrow> Inl e
            | Inr g1 \<Rightarrow>
                (case checkCollisions g1 of
                   Inl e \<Rightarrow> Inl e
                 | Inr g2 \<Rightarrow> Inr (draw g2)))
      else Inr g)"

fun gameLoop :: "event list \<Rightarrow> game \<Rightarrow> fault + game" where
  "gameLoop [] g = Inr g"
| "gameLoop (Tick # evs) g =
     (case onTick g of Inl e \<Rightarrow> Inl e | Inr g' \<Rightarrow> gameLoop evs g')"
| "gameLoop (Input key # evs) g = gameLoop evs (handleInput key g)"
| "gameLoop (Quit # evs) g = Inr g"

text \<open>
  \<^verbatim>\<open>initializeGame\<close> seeds the random source from the clock (the parameter \<open>seed\<close> is
  the sequence it will then produce), sets the variables (\<open>freshGame\<close>; \<^verbatim>\<open>food\<close> still
  has its zero value) and places the first food.
\<close>

definition freshGame :: "(nat \<Rightarrow> nat) \<Rightarrow> game" where
  "freshGame seed =
     \<lparr>snake = [\<lparr>X = width div 2 - 2, Y = height div 2\<rparr>],
      food = \<lparr>X = 0, Y = 0\<rparr>,
      direction = ''RIGHT'',
      gameOver = False,
      score = 0,
      rnd = seed,
      used = 0,
      screen = []\<rparr>"

definition initializeGame :: "(nat \<Rightarrow> nat) \<Rightarrow> fault + game" where
  "initializeGame seed =
     (case placeFood (freshGame seed) of
        None \<Rightarrow> Inl NeverReturns
      | Some g \<Rightarrow> Inr g)"

text \<open>\<^verbatim>\<open>main\<close> after the welcome screen: \<^verbatim>\<open>initializeGame\<close>, then \<^verbatim>\<open>gameLoop\<close>.\<close>

definition main :: "(nat \<Rightarrow> nat) \<Rightarrow> event list \<Rightarrow> fault + game" where
  "main seed evs =
     (case initializeGame seed of Inl e \<Rightarrow> Inl e | Inr g \<Rightarrow> gameLoop evs g)"

section \<open>Notions used in the properties\<close>

text \<open>A position is in bounds when the wall test of \<^verbatim>\<open>checkCollisions\<close> is false for it.\<close>

definition inBounds :: "Position \<Rightarrow> bool" where
  "inBounds p \<longleftrightarrow> 0 \<le> X p \<and> X p < width \<and> 0 \<le> Y p \<and> Y p < height"

text \<open>
  The position that iteration \<open>k\<close> (counted from 0) of the loop of \<^verbatim>\<open>placeFood\<close> draws
  when the loop is entered in state \<open>g\<close>: two raw values per iteration.
\<close>

definition sampled :: "game \<Rightarrow> nat \<Rightarrow> Position" where
  "sampled g k =
     \<lparr>X = int (rnd g (used g + 2 * k)) mod width,
      Y = int (rnd g (used g + 2 * k + 1)) mod height\<rparr>"

text \<open>A state in which the game has ended against the left wall, after one meal.\<close>

definition crashed :: game where
  "crashed =
     \<lparr>snake = [\<lparr>X = - 1, Y = 5\<rparr>, \<lparr>X = 0, Y = 5\<rparr>],
      food = \<lparr>X = 7, Y = 7\<rparr>,
      direction = ''LEFT'',
      gameOver = True,
      score = 10,
      rnd = (\<lambda>k. 7),
      used = 4,
      screen =
        [\<lparr>shownSnake = [\<lparr>X = - 1, Y = 5\<rparr>, \<lparr>X = 0, Y = 5\<rparr>],
          shownFood = \<lparr>X = 7, Y = 7\<rparr>, shownScore = 10, shownGameOver = True\<rparr>]\<rparr>"

text \<open>
  The opposite-pair relation of the four directions, and the handling of a direction
  request in the words of the specification: a request is rejected when it is the
  opposite of the current direction (the one the last tick moved in), otherwise it
  becomes the pending direction. \<open>spec_pendingAfter\<close> is the pending direction after a sequence of requests
  that arrive between two ticks. Neither is part of the program.
\<close>

definition opposite :: "string \<Rightarrow> string" where
  "opposite d =
     (if d = ''UP'' then ''DOWN''
      else if d = ''DOWN'' then ''UP''
      else if d = ''LEFT'' then ''RIGHT''
      else if d = ''RIGHT'' then ''LEFT''
      else [])"

definition spec_SetPendingDirection :: "string \<Rightarrow> string \<Rightarrow> string \<Rightarrow> string" where
  "spec_SetPendingDirection current pending requested =
     (if requested = opposite current then pending else requested)"

definition spec_pendingAfter :: "string \<Rightarrow> string list \<Rightarrow> string" where
  "spec_pendingAfter current requests = foldl (spec_SetPendingDirection current) current requests"

text \<open>
  What holds of every state the program reaches (lemma \<open>reached_invariant\<close>): the
  snake is not empty, the food is on the grid and not on the snake, the cells behind
  the head are distinct and on the grid, the head is at most one step off the grid,
  the score is ten times the number of meals, and while the game runs the whole snake
  is distinct and on the grid.
\<close>

definition invariant :: "game \<Rightarrow> bool" where
  "invariant g \<longleftrightarrow>
     snake g \<noteq> [] \<and>
     inBounds (food g) \<and> food g \<notin> set (snake g) \<and>
     distinct (tl (snake g)) \<and> (\<forall>p \<in> set (tl (snake g)). inBounds p) \<and>
     - 1 \<le> X (hd (snake g)) \<and> X (hd (snake g)) \<le> width \<and>
     - 1 \<le> Y (hd (snake g)) \<and> Y (hd (snake g)) \<le> height \<and>
     score g = 10 * (int (length (snake g)) - 1) \<and>
     (\<not> gameOver g \<longrightarrow> distinct (snake g) \<and> (\<forall>p \<in> set (snake g). inBounds p))"

text \<open>
  A random source that puts the first food at \<open>(11, 10)\<close>, right in front of the
  snake, the second at \<open>(12, 10)\<close> and the third at \<open>(0, 0)\<close>; and the state of the
  program after two ticks with it: two meals, three cells, heading right.
\<close>

definition twoMeals :: "nat \<Rightarrow> nat" where
  "twoMeals k =
     (if k = 0 then 11 else if k = 1 then 10 else if k = 2 then 12 else if k = 3 then 10 else 0)"

definition afterTwoMeals :: game where
  "afterTwoMeals =
     \<lparr>snake = [\<lparr>X = 12, Y = 10\<rparr>, \<lparr>X = 11, Y = 10\<rparr>, \<lparr>X = 10, Y = 10\<rparr>],
      food = \<lparr>X = 0, Y = 0\<rparr>,
      direction = ''RIGHT'',
      gameOver = False,
      score = 20,
      rnd = twoMeals,
      used = 6,
      screen =
        [\<lparr>shownSnake = [\<lparr>X = 11, Y = 10\<rparr>, \<lparr>X = 10, Y = 10\<rparr>],
          shownFood = \<lparr>X = 12, Y = 10\<rparr>, shownScore = 10, shownGameOver = False\<rparr>,
         \<lparr>shownSnake = [\<lparr>X = 12, Y = 10\<rparr>, \<lparr>X = 11, Y = 10\<rparr>, \<lparr>X = 10, Y = 10\<rparr>],
          shownFood = \<lparr>X = 0, Y = 0\<rparr>, shownScore = 20, shownGameOver = False\<rparr>]\<rparr>"

text \<open>
  The three-cell snake of the growth scenario, about to move right onto the food;
  the random source will offer the cell \<open>(3, 3)\<close>.
\<close>

definition meal :: game where
  "meal =
     \<lparr>snake = [\<lparr>X = 5, Y = 5\<rparr>, \<lparr>X = 4, Y = 5\<rparr>, \<lparr>X = 3, Y = 5\<rparr>],
      food = \<lparr>X = 6, Y = 5\<rparr>,
      direction = ''RIGHT'',
      gameOver = False,
      score = 20,
      rnd = (\<lambda>k. 3),
      used = 6,
      screen = []\<rparr>"

text \<open>The state before \<open>crashed\<close>: a two-cell snake at the left wall, heading left.\<close>

definition atWall :: game where
  "atWall =
     \<lparr>snake = [\<lparr>X = 0, Y = 5\<rparr>, \<lparr>X = 1, Y = 5\<rparr>],
      food = \<lparr>X = 7, Y = 7\<rparr>,
      direction = ''LEFT'',
      gameOver = False,
      score = 10,
      rnd = (\<lambda>k. 7),
      used = 4,
      screen = []\<rparr>"

text \<open>A four-cell snake coiled in a square, its head about to move onto its tail.\<close>

definition coiled :: game where
  "coiled =
     \<lparr>snake = [\<lparr>X = 5, Y = 5\<rparr>, \<lparr>X = 5, Y = 6\<rparr>, \<lparr>X = 6, Y = 6\<rparr>, \<lparr>X = 6, Y = 5\<rparr>],
      food = \<lparr>X = 0, Y = 0\<rparr>,
      direction = ''RIGHT'',
      gameOver = False,
      score = 30,
      rnd = (\<lambda>k. 0),
      used = 8,
      screen = []\<rparr>"

text \<open>
  A board on which the snake is about to eat the last free cell. The grid is walked
  row by row, left to right on even rows and right to left on odd rows; the snake's
  head is at \<open>(1, 0)\<close>, its body follows that walk to the tail at \<open>(0, 19)\<close>, the food
  is at \<open>(0, 0)\<close> and the snake heads left, towards it. \<open>boardFull\<close> is the state in
  which \<^verbatim>\<open>move\<close> then calls \<^verbatim>\<open>placeFood\<close>: the snake has grown onto the food.
\<close>

definition gridRow :: "int \<Rightarrow> Position list" where
  "gridRow y =
     (let cells = map (\<lambda>x. \<lparr>X = x, Y = y\<rparr>) [0..width - 1]
      in if even y then cells else rev cells)"

definition lastMeal :: game where
  "lastMeal =
     \<lparr>snake = map (\<lambda>x. \<lparr>X = x, Y = 0\<rparr>) [1..width - 1] @ concat (map gridRow [1..height - 1]),
      food = \<lparr>X = 0, Y = 0\<rparr>,
      direction = ''LEFT'',
      gameOver = False,
      score = 4980,
      rnd = (\<lambda>k. k),
      used = 998,
      screen = []\<rparr>"

definition boardFull :: game where
  "boardFull = lastMeal\<lparr>snake := food lastMeal # snake lastMeal, score := score lastMeal + 10\<rparr>"

section \<open>When placeFood returns\<close>

lemma validPosition_iff: "validPosition f segs \<longleftrightarrow> f \<notin> set segs"
  by (induction segs) auto

lemma placeFood_unfold:
  "placeFood g =
     (if sampled g 0 \<notin> set (snake g)
      then Some (g\<lparr>used := used g + 2, food := sampled g 0\<rparr>)
      else placeFood (g\<lparr>used := used g + 2, food := sampled g 0\<rparr>))"
  by (subst placeFood.simps) (simp add: Intn_def sampled_def validPosition_iff Let_def)

lemma sampled_next:
  "u = used g + 2 \<Longrightarrow> sampled (g\<lparr>used := u, food := p\<rparr>) k = sampled g (Suc k)"
  by (simp add: sampled_def)

lemma placeFood_returns:
  "sampled g k \<notin> set (snake g) \<Longrightarrow> \<forall>j<k. sampled g j \<in> set (snake g) \<Longrightarrow>
   placeFood g = Some (g\<lparr>used := used g + 2 * Suc k, food := sampled g k\<rparr>)"
proof (induction k arbitrary: g)
  case 0
  then show ?case by (subst placeFood_unfold) simp
next
  case (Suc k)
  let ?g = "g\<lparr>used := used g + 2, food := sampled g 0\<rparr>"
  from Suc.prems have first: "sampled g 0 \<in> set (snake g)" by simp
  have "sampled ?g k \<notin> set (snake ?g)"
    using Suc.prems(1) by (simp add: sampled_next)
  moreover have "\<forall>j<k. sampled ?g j \<in> set (snake ?g)"
    using Suc.prems(2) by (simp add: sampled_next)
  ultimately have "placeFood ?g = Some (?g\<lparr>used := used ?g + 2 * Suc k, food := sampled ?g k\<rparr>)"
    by (rule Suc.IH)
  then show ?case
    using first by (subst placeFood_unfold) (simp add: sampled_next)
qed

lemma placeFood_Some_sampled:
  "placeFood g = Some g' \<Longrightarrow> \<exists>k. sampled g k \<notin> set (snake g)"
proof (rule placeFood.raw_induct
    [where P = "\<lambda>g g'. \<exists>k. sampled g k \<notin> set (snake g)" and g = g and y = g'])
  fix rec g g'
  assume IH: "\<And>x y. rec x = Some y \<Longrightarrow> \<exists>k. sampled x k \<notin> set (snake x)"
    and body: "(case Intn width g of (x, g1) \<Rightarrow>
      case Intn height g1 of (y, g2) \<Rightarrow>
        let g3 = g2\<lparr>food := \<lparr>X = x, Y = y\<rparr>\<rparr>
        in if validPosition (food g3) (snake g3) then Some g3 else rec g3) = Some g'"
  show "\<exists>k. sampled g k \<notin> set (snake g)"
  proof (cases "sampled g 0 \<in> set (snake g)")
    case False
    then show ?thesis by blast
  next
    case True
    let ?g = "g\<lparr>used := used g + 2, food := sampled g 0\<rparr>"
    from body True have "rec ?g = Some g'"
      by (simp add: Intn_def sampled_def validPosition_iff Let_def)
    then obtain k where "sampled ?g k \<notin> set (snake ?g)"
      using IH by blast
    then have "sampled g (Suc k) \<notin> set (snake g)"
      by (simp add: sampled_next)
    then show ?thesis by blast
  qed
qed assumption

lemma placeFood_Some_iff:
  "placeFood g = Some g' \<longleftrightarrow>
     (\<exists>k. sampled g k \<notin> set (snake g) \<and> (\<forall>j<k. sampled g j \<in> set (snake g)) \<and>
          g' = g\<lparr>used := used g + 2 * Suc k, food := sampled g k\<rparr>)"
proof
  assume some: "placeFood g = Some g'"
  then obtain k0 where k0: "sampled g k0 \<notin> set (snake g)"
    using placeFood_Some_sampled by blast
  define k where "k = (LEAST k. sampled g k \<notin> set (snake g))"
  have free: "sampled g k \<notin> set (snake g)"
    unfolding k_def using k0 by (rule LeastI)
  have before: "\<forall>j<k. sampled g j \<in> set (snake g)"
    unfolding k_def using not_less_Least by blast
  from placeFood_returns [OF free before] some
  have "g' = g\<lparr>used := used g + 2 * Suc k, food := sampled g k\<rparr>" by simp
  with free before show "\<exists>k. sampled g k \<notin> set (snake g) \<and>
      (\<forall>j<k. sampled g j \<in> set (snake g)) \<and>
      g' = g\<lparr>used := used g + 2 * Suc k, food := sampled g k\<rparr>"
    by blast
next
  assume "\<exists>k. sampled g k \<notin> set (snake g) \<and> (\<forall>j<k. sampled g j \<in> set (snake g)) \<and>
          g' = g\<lparr>used := used g + 2 * Suc k, food := sampled g k\<rparr>"
  then show "placeFood g = Some g'"
    using placeFood_returns by blast
qed

lemma placeFood_returns_any:
  assumes "sampled g k0 \<notin> set (snake g)"
  shows "\<exists>g'. placeFood g = Some g'"
proof -
  define k where "k = (LEAST k. sampled g k \<notin> set (snake g))"
  have "sampled g k \<notin> set (snake g)"
    unfolding k_def using assms by (rule LeastI)
  moreover have "\<forall>j<k. sampled g j \<in> set (snake g)"
    unfolding k_def using not_less_Least by blast
  ultimately show ?thesis
    using placeFood_returns by blast
qed

lemma inBounds_sampled: "inBounds (sampled g k)"
  by (simp add: inBounds_def sampled_def width_def height_def)

lemma free_cell_exists:
  assumes short: "length segs < nat (width * height)"
  shows "\<exists>p. inBounds p \<and> p \<notin> set segs"
proof (rule ccontr)
  assume "\<not> (\<exists>p. inBounds p \<and> p \<notin> set segs)"
  then have covered: "{p. inBounds p} \<subseteq> set segs" by blast
  let ?cell = "\<lambda>(x, y). \<lparr>X = int x, Y = int y\<rparr>"
  let ?grid = "?cell ` ({..<25} \<times> {..<20})"
  have "inj_on ?cell ({..<25} \<times> {..<20})"
    by (auto simp: inj_on_def)
  then have "card ?grid = 500"
    by (simp add: card_image)
  moreover have "?grid \<subseteq> {p. inBounds p}"
    by (auto simp: inBounds_def width_def height_def)
  ultimately have "500 \<le> card (set segs)"
    using covered card_mono [of "set segs" ?grid] by auto
  also have "\<dots> \<le> length segs" by (rule card_length)
  finally show False using short by (simp add: width_def height_def)
qed

lemma sampled_seed:
  assumes "inBounds p"
  shows "sampled (g\<lparr>rnd := (\<lambda>i. if i = used g then nat (X p) else nat (Y p))\<rparr>) 0 = p"
  using assms by (simp add: sampled_def inBounds_def width_def height_def)

lemma placeFood_full:
  assumes "\<forall>p. inBounds p \<longrightarrow> p \<in> set (snake g)"
  shows "placeFood g = None"
proof (cases "placeFood g")
  case None
  then show ?thesis .
next
  case (Some g')
  then obtain k where "sampled g k \<notin> set (snake g)"
    using placeFood_Some_sampled by blast
  with assms inBounds_sampled show ?thesis by blast
qed

section \<open>The full board\<close>

lemma set_gridRow: "set (gridRow y) = (\<lambda>x. \<lparr>X = x, Y = y\<rparr>) ` {0..width - 1}"
  by (simp add: gridRow_def Let_def)

lemma length_gridRow: "length (gridRow y) = nat width"
proof -
  have "length (gridRow y) = length [0..width - 1]"
    by (simp add: gridRow_def Let_def del: length_upto)
  then show ?thesis by (simp add: width_def)
qed

lemma snake_lastMeal:
  "snake lastMeal =
     \<lparr>X = 1, Y = 0\<rparr> # map (\<lambda>x. \<lparr>X = x, Y = 0\<rparr>) [2..width - 1] @ concat (map gridRow [1..height - 1])"
proof -
  have "[1..width - 1] = 1 # [2..width - 1]"
    by (subst upto_rec1) (simp_all add: width_def)
  then show ?thesis by (simp add: lastMeal_def)
qed

lemma snake_boardFull:
  "snake boardFull =
     \<lparr>X = 0, Y = 0\<rparr> # map (\<lambda>x. \<lparr>X = x, Y = 0\<rparr>) [1..width - 1] @ concat (map gridRow [1..height - 1])"
  by (simp add: boardFull_def lastMeal_def)

lemma boardFull_covers:
  assumes "inBounds p"
  shows "p \<in> set (snake boardFull)"
proof -
  from assms have x: "0 \<le> X p" "X p \<le> width - 1" and y: "0 \<le> Y p" "Y p \<le> height - 1"
    by (simp_all add: inBounds_def)
  show ?thesis
  proof (cases "Y p = 0")
    case True
    show ?thesis
    proof (cases "X p = 0")
      case True
      with \<open>Y p = 0\<close> have "p = \<lparr>X = 0, Y = 0\<rparr>" by (cases p) simp
      then show ?thesis by (simp add: snake_boardFull)
    next
      case False
      with x have "X p \<in> {1..width - 1}" by simp
      moreover from \<open>Y p = 0\<close> have "p = \<lparr>X = X p, Y = 0\<rparr>" by (cases p) simp
      ultimately have "p \<in> (\<lambda>x. \<lparr>X = x, Y = 0\<rparr>) ` {1..width - 1}"
        by (rule_tac image_eqI)
      then show ?thesis by (simp add: snake_boardFull)
    qed
  next
    case False
    with y have row: "Y p \<in> {1..height - 1}" by simp
    from x have "X p \<in> {0..width - 1}" by simp
    moreover have "p = \<lparr>X = X p, Y = Y p\<rparr>" by simp
    ultimately have "p \<in> (\<lambda>x. \<lparr>X = x, Y = Y p\<rparr>) ` {0..width - 1}"
      by (rule_tac image_eqI)
    then have "p \<in> set (gridRow (Y p))"
      by (simp only: set_gridRow)
    with row have "\<exists>y\<in>{1..height - 1}. p \<in> set (gridRow y)"
      by blast
    then show ?thesis by (simp add: snake_boardFull)
  qed
qed

lemma length_boardFull: "length (snake boardFull) = nat (width * height)"
proof -
  have "length (snake boardFull) =
      1 + length [1..width - 1] + length [1..height - 1] * nat width"
    by (simp add: snake_boardFull length_concat comp_def length_gridRow sum_list_triv
        del: length_upto)
  then show ?thesis by (simp add: width_def height_def)
qed

lemma placeFood_boardFull: "placeFood boardFull = None"
  by (rule placeFood_full) (simp add: boardFull_covers)

lemma move_lastMeal: "move lastMeal = Inl NeverReturns"
proof -
  have heading: "newHead (direction lastMeal) \<lparr>X = 1, Y = 0\<rparr> = food lastMeal"
    by (simp add: lastMeal_def newHead_def)
  have grown: "lastMeal\<lparr>snake := food lastMeal # snake lastMeal, score := score lastMeal + 10\<rparr> = boardFull"
    by (simp add: boardFull_def)
  obtain rest where rest: "snake lastMeal = \<lparr>X = 1, Y = 0\<rparr> # rest"
    using snake_lastMeal by blast
  show ?thesis
    unfolding move_def rest list.case Let_def heading
    by (simp add: rest [symmetric] grown placeFood_boardFull)
qed

section \<open>One tick\<close>

lemma handleInput_keeps:
  "snake (handleInput key g) = snake g"
  "food (handleInput key g) = food g"
  "score (handleInput key g) = score g"
  "gameOver (handleInput key g) = gameOver g"
  "rnd (handleInput key g) = rnd g"
  "used (handleInput key g) = used g"
  "screen (handleInput key g) = screen g"
  by (simp_all add: handleInput_def)

lemma onTick_over: "gameOver g \<Longrightarrow> onTick g = Inr g"
  by (simp add: onTick_def)

lemma same_cell: "(X p = X q \<and> Y p = Y q) \<longleftrightarrow> p = (q :: Position)"
  by auto

lemma move_eats:
  assumes "snake g = head # rest" and "newHead (direction g) head = food g"
  shows "move g =
     (case placeFood (g\<lparr>snake := food g # snake g, score := score g + 10\<rparr>) of
        None \<Rightarrow> Inl NeverReturns
      | Some g2 \<Rightarrow> Inr g2)"
  using assms by (simp add: move_def Let_def)

lemma move_steps:
  assumes "snake g = head # rest" and "newHead (direction g) head \<noteq> food g"
  shows "move g = Inr (g\<lparr>snake := newHead (direction g) head # butlast (snake g)\<rparr>)"
  using assms by (simp add: move_def Let_def same_cell)

lemma selfCollision_iff: "selfCollision head segs over \<longleftrightarrow> over \<or> head \<in> set segs"
  by (induction segs arbitrary: over) (auto simp: same_cell)

lemma checkCollisions_eq:
  assumes "snake g = head # segs"
  shows "checkCollisions g =
     Inr (g\<lparr>gameOver := gameOver g \<or> \<not> inBounds head \<or> head \<in> set segs\<rparr>)"
  using assms
  by (auto simp: checkCollisions_def Let_def selfCollision_iff inBounds_def)

lemma sampled_cong:
  "rnd g' = rnd g \<Longrightarrow> used g' = used g \<Longrightarrow> sampled g' k = sampled g k"
  by (simp add: sampled_def)

lemma placeFood_Some_props:
  assumes "placeFood g = Some g'"
  shows "snake g' = snake g" "score g' = score g" "direction g' = direction g"
    "gameOver g' = gameOver g" "screen g' = screen g" "rnd g' = rnd g"
    "inBounds (food g')" "food g' \<notin> set (snake g)"
  using assms by (auto simp: placeFood_Some_iff inBounds_sampled)

lemma onTick_steps:
  assumes "\<not> gameOver g" and "snake g = head # rest"
    and "newHead (direction g) head \<noteq> food g"
  shows "onTick g =
     Inr (draw (g\<lparr>snake := newHead (direction g) head # butlast (snake g),
                  gameOver := \<not> inBounds (newHead (direction g) head) \<or>
                     newHead (direction g) head \<in> set (butlast (snake g))\<rparr>))"
  using assms(1) by (simp add: onTick_def move_steps [OF assms(2,3)] checkCollisions_eq)

lemma onTick_eats:
  assumes "\<not> gameOver g" and "snake g = head # rest"
    and "newHead (direction g) head = food g"
    and "placeFood (g\<lparr>snake := food g # snake g, score := score g + 10\<rparr>) = Some g2"
  shows "onTick g =
     Inr (draw (g2\<lparr>gameOver := \<not> inBounds (food g) \<or> food g \<in> set (snake g)\<rparr>))"
proof -
  have "snake g2 = food g # snake g" "gameOver g2 = gameOver g"
    using placeFood_Some_props [OF assms(4)] by simp_all
  then show ?thesis
    using assms(1,4)
    by (simp add: onTick_def move_eats [OF assms(2,3)] checkCollisions_eq)
qed

lemma onTick_eats_hangs:
  assumes "\<not> gameOver g" and "snake g = head # rest"
    and "newHead (direction g) head = food g"
    and "placeFood (g\<lparr>snake := food g # snake g, score := score g + 10\<rparr>) = None"
  shows "onTick g = Inl NeverReturns"
  using assms(1,4) by (simp add: onTick_def move_eats [OF assms(2,3)])

lemma onTick_empty: "\<not> gameOver g \<Longrightarrow> snake g = [] \<Longrightarrow> onTick g = Inl IndexOutOfRange"
  by (simp add: onTick_def move_def)

section \<open>Food placement\<close>

lemma onTick_lastMeal: "onTick lastMeal = Inl NeverReturns"
proof -
  have "\<not> gameOver lastMeal" by (simp add: lastMeal_def)
  then show ?thesis
    by (simp add: onTick_def move_lastMeal)
qed

text \<open>
  C1, as the code has it. \<^verbatim>\<open>placeFood\<close> returns exactly when the random source at some
  point offers a cell that is not on the snake, and the state it returns is the one
  in which the food is the first such cell offered (two raw values are consumed per
  offer; nothing else changes). So the new food is in bounds and not on the snake,
  and neither the snake nor \<^verbatim>\<open>gameOver\<close> has changed. For a snake shorter than
  \<open>width * height\<close> a cell is free, so there are random sources with which the call
  returns. When the snake covers every cell of the grid the call never returns,
  whatever the source: there is no test for a full board and no transition to game
  over.
\<close>

theorem placeFood_returns_iff_free_cell_sampled:
  "(placeFood g = Some g' \<longleftrightarrow>
      (\<exists>k. sampled g k \<notin> set (snake g) \<and> (\<forall>j<k. sampled g j \<in> set (snake g)) \<and>
           g' = g\<lparr>used := used g + 2 * Suc k, food := sampled g k\<rparr>)) \<and>
   ((\<exists>g'. placeFood g = Some g') \<longleftrightarrow> (\<exists>k. sampled g k \<notin> set (snake g))) \<and>
   (\<forall>g'. placeFood g = Some g' \<longrightarrow>
      inBounds (food g') \<and> food g' \<notin> set (snake g') \<and> snake g' = snake g \<and>
      gameOver g' = gameOver g) \<and>
   (length (snake g) < nat (width * height) \<longrightarrow>
      (\<exists>seed g'. placeFood (g\<lparr>rnd := seed\<rparr>) = Some g')) \<and>
   ((\<forall>p. inBounds p \<longrightarrow> p \<in> set (snake g)) \<longrightarrow> placeFood g = None)"
proof (intro conjI allI impI)
  show "placeFood g = Some g' \<longleftrightarrow>
      (\<exists>k. sampled g k \<notin> set (snake g) \<and> (\<forall>j<k. sampled g j \<in> set (snake g)) \<and>
           g' = g\<lparr>used := used g + 2 * Suc k, food := sampled g k\<rparr>)"
    by (rule placeFood_Some_iff)
next
  show "(\<exists>g'. placeFood g = Some g') \<longleftrightarrow> (\<exists>k. sampled g k \<notin> set (snake g))"
    using placeFood_Some_sampled placeFood_returns_any by blast
next
  fix g'' assume some: "placeFood g = Some g''"
  show "inBounds (food g'')" by (rule placeFood_Some_props(7) [OF some])
  show "snake g'' = snake g" by (rule placeFood_Some_props(1) [OF some])
  show "gameOver g'' = gameOver g" by (rule placeFood_Some_props(4) [OF some])
  show "food g'' \<notin> set (snake g'')"
    using placeFood_Some_props(1,8) [OF some] by simp
next
  assume "length (snake g) < nat (width * height)"
  then obtain p where p: "inBounds p" "p \<notin> set (snake g)"
    using free_cell_exists by blast
  let ?g = "g\<lparr>rnd := (\<lambda>i. if i = used g then nat (X p) else nat (Y p))\<rparr>"
  have "sampled ?g 0 \<notin> set (snake ?g)"
    using p by (simp add: sampled_seed)
  then have "placeFood ?g = Some (?g\<lparr>used := used ?g + 2 * Suc 0, food := sampled ?g 0\<rparr>)"
    by (rule placeFood_returns) simp
  then show "\<exists>seed g'. placeFood (g\<lparr>rnd := seed\<rparr>) = Some g'" by blast
next
  assume "\<forall>p. inBounds p \<longrightarrow> p \<in> set (snake g)"
  then show "placeFood g = None" by (rule placeFood_full)
qed

theorem placeFood_returns_iff_free_cell_sampled_witness:
  "length (snake (freshGame (\<lambda>k. 0))) < nat (width * height) \<and>
   sampled (freshGame (\<lambda>k. 0)) 0 \<notin> set (snake (freshGame (\<lambda>k. 0))) \<and>
   placeFood (freshGame (\<lambda>k. 0)) =
     Some ((freshGame (\<lambda>k. 0))\<lparr>used := 2, food := \<lparr>X = 0, Y = 0\<rparr>\<rparr>) \<and>
   (\<exists>g'. placeFood (freshGame (\<lambda>k. 0)) = Some g' \<and> food g' = \<lparr>X = 0, Y = 0\<rparr>) \<and>
   placeFood boardFull = None"
proof -
  let ?g = "freshGame (\<lambda>k. 0)"
  let ?g' = "?g\<lparr>used := 2, food := \<lparr>X = 0, Y = 0\<rparr>\<rparr>"
  have short: "length (snake ?g) < nat (width * height)"
    by (simp add: freshGame_def width_def height_def)
  have free: "sampled ?g 0 \<notin> set (snake ?g)"
    by (simp add: freshGame_def sampled_def width_def height_def)
  have "\<exists>k. sampled ?g k \<notin> set (snake ?g) \<and> (\<forall>j<k. sampled ?g j \<in> set (snake ?g)) \<and>
      ?g' = ?g\<lparr>used := used ?g + 2 * Suc k, food := sampled ?g k\<rparr>"
    using free by (intro exI [of _ 0]) (simp add: freshGame_def sampled_def)
  with placeFood_returns_iff_free_cell_sampled [of ?g ?g'] have exact: "placeFood ?g = Some ?g'" by blast
  then have some: "\<exists>g'. placeFood ?g = Some g' \<and> food g' = \<lparr>X = 0, Y = 0\<rparr>" by simp
  have "placeFood boardFull = None"
    using placeFood_returns_iff_free_cell_sampled [of boardFull] boardFull_covers by blast
  with short free exact some show ?thesis by blast
qed

text \<open>
  C1 as stated fails on a full board: with the snake on all 500 cells \<^verbatim>\<open>placeFood\<close>
  never returns, and the tick that made the snake eat the last free cell never
  completes, so \<^verbatim>\<open>gameOver\<close> is never set.
\<close>

theorem placeFood_board_full_counterexample:
  "length (snake boardFull) = nat (width * height) \<and>
   placeFood boardFull = None \<and>
   onTick lastMeal = Inl NeverReturns"
  using length_boardFull placeFood_boardFull onTick_lastMeal by blast

section \<open>Eating\<close>

lemma move_lastMeal_heading:
  "newHead (direction lastMeal) (hd (snake lastMeal)) = food lastMeal"
  by (simp add: snake_lastMeal) (simp add: lastMeal_def newHead_def)

lemma onTick_meal_iff:
  assumes "\<not> gameOver g" and "snake g = head # rest"
    and "newHead (direction g) head = food g"
  shows "onTick g = Inr g' \<longleftrightarrow>
     (\<exists>k. sampled g k \<notin> set (food g # snake g) \<and>
          (\<forall>j<k. sampled g j \<in> set (food g # snake g)) \<and>
          g' = draw (g\<lparr>snake := food g # snake g, score := score g + 10,
                        used := used g + 2 * Suc k, food := sampled g k,
                        gameOver := \<not> inBounds (food g) \<or> food g \<in> set (snake g)\<rparr>))"
proof -
  let ?g1 = "g\<lparr>snake := food g # snake g, score := score g + 10\<rparr>"
  have s: "\<And>k. sampled ?g1 k = sampled g k"
    by (simp add: sampled_cong [of ?g1 g])
  show ?thesis
  proof (cases "placeFood ?g1")
    case None
    then have "\<not> (\<exists>k. sampled ?g1 k \<notin> set (snake ?g1))"
      using placeFood_returns_any [of ?g1] by auto
    then have "\<not> (\<exists>k. sampled g k \<notin> set (food g # snake g))"
      by (simp add: s)
    then show ?thesis
      using onTick_eats_hangs [OF assms None] by auto
  next
    case (Some g2)
    then obtain k where k: "sampled ?g1 k \<notin> set (snake ?g1)"
        "\<forall>j<k. sampled ?g1 j \<in> set (snake ?g1)"
        "g2 = ?g1\<lparr>used := used ?g1 + 2 * Suc k, food := sampled ?g1 k\<rparr>"
      unfolding placeFood_Some_iff by blast
    have unique: "k' = k" if "sampled g k' \<notin> set (food g # snake g)"
        "\<forall>j<k'. sampled g j \<in> set (food g # snake g)" for k'
      using that k(1,2) by (simp add: s) (meson linorder_neqE_nat)
    have tick: "onTick g = Inr (draw (g2\<lparr>gameOver := \<not> inBounds (food g) \<or> food g \<in> set (snake g)\<rparr>))"
      by (rule onTick_eats [OF assms Some])
    show ?thesis
    proof
      assume "onTick g = Inr g'"
      with tick k show "\<exists>k. sampled g k \<notin> set (food g # snake g) \<and>
          (\<forall>j<k. sampled g j \<in> set (food g # snake g)) \<and>
          g' = draw (g\<lparr>snake := food g # snake g, score := score g + 10,
                        used := used g + 2 * Suc k, food := sampled g k,
                        gameOver := \<not> inBounds (food g) \<or> food g \<in> set (snake g)\<rparr>)"
        by (intro exI [of _ k]) (simp add: s)
    next
      assume "\<exists>k. sampled g k \<notin> set (food g # snake g) \<and>
          (\<forall>j<k. sampled g j \<in> set (food g # snake g)) \<and>
          g' = draw (g\<lparr>snake := food g # snake g, score := score g + 10,
                        used := used g + 2 * Suc k, food := sampled g k,
                        gameOver := \<not> inBounds (food g) \<or> food g \<in> set (snake g)\<rparr>)"
      then obtain k' where k': "sampled g k' \<notin> set (food g # snake g)"
          "\<forall>j<k'. sampled g j \<in> set (food g # snake g)"
          "g' = draw (g\<lparr>snake := food g # snake g, score := score g + 10,
                        used := used g + 2 * Suc k', food := sampled g k',
                        gameOver := \<not> inBounds (food g) \<or> food g \<in> set (snake g)\<rparr>)"
        by blast
      from unique [OF k'(1,2)] k'(3) tick k(3) show "onTick g = Inr g'"
        by (simp add: s)
    qed
  qed
qed

lemma onTick_meal_hangs:
  assumes "\<not> gameOver g" and "snake g = head # rest"
    and "newHead (direction g) head = food g"
    and "\<forall>k. sampled g k \<in> set (food g # snake g)"
  shows "onTick g = Inl NeverReturns"
proof -
  let ?g1 = "g\<lparr>snake := food g # snake g, score := score g + 10\<rparr>"
  have "placeFood ?g1 = None"
  proof (cases "placeFood ?g1")
    case (Some g2)
    then obtain k where "sampled ?g1 k \<notin> set (snake ?g1)"
      using placeFood_Some_sampled by blast
    with assms(4) show ?thesis by (simp add: sampled_cong [of ?g1 g])
  qed
  then show ?thesis by (rule onTick_eats_hangs [OF assms(1-3)])
qed

lemma onTick_meal_full:
  assumes "\<not> gameOver g" and "snake g = head # rest"
    and "newHead (direction g) head = food g"
    and "\<forall>p. inBounds p \<longrightarrow> p \<in> set (food g # snake g)"
  shows "onTick g = Inl NeverReturns"
  using assms(4) inBounds_sampled
  by (intro onTick_meal_hangs [OF assms(1-3)]) blast

lemma onTick_meal_possible:
  assumes "\<not> gameOver g" and "snake g = head # rest"
    and "newHead (direction g) head = food g"
  shows "(\<exists>seed g'. onTick (g\<lparr>rnd := seed\<rparr>) = Inr g') \<longleftrightarrow>
     (\<exists>p. inBounds p \<and> p \<notin> set (food g # snake g))"
proof
  assume "\<exists>seed g'. onTick (g\<lparr>rnd := seed\<rparr>) = Inr g'"
  then obtain seed g' where tick: "onTick (g\<lparr>rnd := seed\<rparr>) = Inr g'" by blast
  let ?g = "g\<lparr>rnd := seed\<rparr>"
  have a: "\<not> gameOver ?g" "snake ?g = head # rest" "newHead (direction ?g) head = food ?g"
    using assms by simp_all
  from tick obtain k where "sampled ?g k \<notin> set (food ?g # snake ?g)"
    unfolding onTick_meal_iff [OF a] by blast
  then have "sampled ?g k \<notin> set (food g # snake g)" by simp
  with inBounds_sampled show "\<exists>p. inBounds p \<and> p \<notin> set (food g # snake g)" by blast
next
  assume "\<exists>p. inBounds p \<and> p \<notin> set (food g # snake g)"
  then obtain p where p: "inBounds p" "p \<notin> set (food g # snake g)" by blast
  let ?g = "g\<lparr>rnd := (\<lambda>i. if i = used g then nat (X p) else nat (Y p))\<rparr>"
  have a: "\<not> gameOver ?g" "snake ?g = head # rest" "newHead (direction ?g) head = food ?g"
    using assms by simp_all
  have free: "sampled ?g 0 \<notin> set (food ?g # snake ?g)"
    using p by (simp add: sampled_seed)
  have "\<exists>g'. onTick ?g = Inr g'"
    unfolding onTick_meal_iff [OF a] using free by (intro exI [of _ 0] exI conjI) auto
  then show "\<exists>seed g'. onTick (g\<lparr>rnd := seed\<rparr>) = Inr g'" by blast
qed

lemma lastMeal_grown_covers: "\<forall>p. inBounds p \<longrightarrow> p \<in> set (food lastMeal # snake lastMeal)"
proof -
  have "snake boardFull = food lastMeal # snake lastMeal"
    by (simp add: boardFull_def)
  with boardFull_covers show ?thesis by simp
qed

text \<open>
  C4, as the code has it. Take a tick of a running game whose new head is the food
  cell. If the random source at some point offers a cell off the grown snake, the
  tick completes: the score is 10 higher, the snake is the old snake with the new
  head in front (one cell longer), and the new food is in bounds and not on the
  grown snake. More exactly, the tick returns a state if and only if there is such an
  offer, and the state is then the one in which the food is the first cell offered
  that is off the grown snake. If every offer is on the grown snake the tick never
  returns; this is so for every random source when the grown snake covers the grid.
  A random source with which the tick returns exists exactly when the grown snake
  leaves a cell of the grid free.
\<close>

theorem meal_grows_and_scores:
  assumes "\<not> gameOver g" and "snake g = head # rest"
    and "newHead (direction g) head = food g"
  shows
    "(sampled g k \<notin> set (food g # snake g) \<longrightarrow>
        (\<exists>g'. onTick g = Inr g' \<and> score g' = score g + 10 \<and>
           snake g' = food g # snake g \<and> length (snake g') = length (snake g) + 1 \<and>
           inBounds (food g') \<and> food g' \<notin> set (snake g'))) \<and>
     (onTick g = Inr g' \<longleftrightarrow>
        (\<exists>k. sampled g k \<notin> set (food g # snake g) \<and>
             (\<forall>j<k. sampled g j \<in> set (food g # snake g)) \<and>
             g' = draw (g\<lparr>snake := food g # snake g, score := score g + 10,
                           used := used g + 2 * Suc k, food := sampled g k,
                           gameOver := \<not> inBounds (food g) \<or> food g \<in> set (snake g)\<rparr>))) \<and>
     ((\<forall>k. sampled g k \<in> set (food g # snake g)) \<longrightarrow> onTick g = Inl NeverReturns) \<and>
     ((\<forall>p. inBounds p \<longrightarrow> p \<in> set (food g # snake g)) \<longrightarrow> onTick g = Inl NeverReturns) \<and>
     ((\<exists>seed g'. onTick (g\<lparr>rnd := seed\<rparr>) = Inr g') \<longleftrightarrow>
        (\<exists>p. inBounds p \<and> p \<notin> set (food g # snake g)))"
proof (intro conjI impI)
  assume free: "sampled g k \<notin> set (food g # snake g)"
  let ?g1 = "g\<lparr>snake := food g # snake g, score := score g + 10\<rparr>"
  have "sampled ?g1 k \<notin> set (snake ?g1)"
    using free by (simp add: sampled_cong [of ?g1 g])
  then have "\<exists>g2. placeFood ?g1 = Some g2"
    using placeFood_returns_any by blast
  then obtain g2 where g2: "placeFood ?g1 = Some g2" ..
  note props = placeFood_Some_props [OF g2]
  let ?g' = "draw (g2\<lparr>gameOver := \<not> inBounds (food g) \<or> food g \<in> set (snake g)\<rparr>)"
  have "onTick g = Inr ?g'"
    by (rule onTick_eats [OF assms g2])
  moreover have "score ?g' = score g + 10" "snake ?g' = food g # snake g"
    "inBounds (food ?g')" "food ?g' \<notin> set (snake ?g')"
    using props by (simp_all add: draw_def)
  ultimately show "\<exists>g'. onTick g = Inr g' \<and> score g' = score g + 10 \<and>
      snake g' = food g # snake g \<and> length (snake g') = length (snake g) + 1 \<and>
      inBounds (food g') \<and> food g' \<notin> set (snake g')"
    by simp
next
  show "onTick g = Inr g' \<longleftrightarrow>
      (\<exists>k. sampled g k \<notin> set (food g # snake g) \<and>
           (\<forall>j<k. sampled g j \<in> set (food g # snake g)) \<and>
           g' = draw (g\<lparr>snake := food g # snake g, score := score g + 10,
                         used := used g + 2 * Suc k, food := sampled g k,
                         gameOver := \<not> inBounds (food g) \<or> food g \<in> set (snake g)\<rparr>))"
    by (rule onTick_meal_iff [OF assms])
next
  assume "\<forall>k. sampled g k \<in> set (food g # snake g)"
  then show "onTick g = Inl NeverReturns" by (rule onTick_meal_hangs [OF assms])
next
  assume "\<forall>p. inBounds p \<longrightarrow> p \<in> set (food g # snake g)"
  then show "onTick g = Inl NeverReturns" by (rule onTick_meal_full [OF assms])
next
  show "(\<exists>seed g'. onTick (g\<lparr>rnd := seed\<rparr>) = Inr g') \<longleftrightarrow>
      (\<exists>p. inBounds p \<and> p \<notin> set (food g # snake g))"
    by (rule onTick_meal_possible [OF assms])
qed

theorem meal_grows_and_scores_witness:
  "\<not> gameOver meal \<and>
   snake meal = [\<lparr>X = 5, Y = 5\<rparr>, \<lparr>X = 4, Y = 5\<rparr>, \<lparr>X = 3, Y = 5\<rparr>] \<and>
   newHead (direction meal) \<lparr>X = 5, Y = 5\<rparr> = food meal \<and>
   sampled meal 0 \<notin> set (food meal # snake meal) \<and>
   (\<exists>g'. onTick meal = Inr g' \<and> score g' = 30 \<and>
      snake g' = [\<lparr>X = 6, Y = 5\<rparr>, \<lparr>X = 5, Y = 5\<rparr>, \<lparr>X = 4, Y = 5\<rparr>, \<lparr>X = 3, Y = 5\<rparr>] \<and>
      length (snake g') = 4 \<and> food g' = \<lparr>X = 3, Y = 3\<rparr> \<and>
      inBounds (food g') \<and> food g' \<notin> set (snake g')) \<and>
   \<not> gameOver lastMeal \<and>
   newHead (direction lastMeal) (hd (snake lastMeal)) = food lastMeal \<and>
   onTick lastMeal = Inl NeverReturns"
proof -
  have active: "\<not> gameOver meal" by (simp add: meal_def)
  have body: "snake meal = [\<lparr>X = 5, Y = 5\<rparr>, \<lparr>X = 4, Y = 5\<rparr>, \<lparr>X = 3, Y = 5\<rparr>]"
    by (simp add: meal_def)
  have onto: "newHead (direction meal) \<lparr>X = 5, Y = 5\<rparr> = food meal"
    by (simp add: meal_def newHead_def)
  have free: "sampled meal 0 \<notin> set (food meal # snake meal)"
    by (simp add: meal_def sampled_def width_def height_def)
  let ?g' = "draw (meal\<lparr>snake := food meal # snake meal, score := score meal + 10,
                        used := used meal + 2 * Suc 0, food := sampled meal 0,
                        gameOver := \<not> inBounds (food meal) \<or> food meal \<in> set (snake meal)\<rparr>)"
  note inst = meal_grows_and_scores [OF active body onto, of 0 ?g']
  have "\<exists>k. sampled meal k \<notin> set (food meal # snake meal) \<and>
      (\<forall>j<k. sampled meal j \<in> set (food meal # snake meal)) \<and>
      ?g' = draw (meal\<lparr>snake := food meal # snake meal, score := score meal + 10,
                        used := used meal + 2 * Suc k, food := sampled meal k,
                        gameOver := \<not> inBounds (food meal) \<or> food meal \<in> set (snake meal)\<rparr>)"
    using free by (intro exI [of _ 0]) simp
  with inst have tick: "onTick meal = Inr ?g'" by blast
  have "score ?g' = 30"
    "snake ?g' = [\<lparr>X = 6, Y = 5\<rparr>, \<lparr>X = 5, Y = 5\<rparr>, \<lparr>X = 4, Y = 5\<rparr>, \<lparr>X = 3, Y = 5\<rparr>]"
    "length (snake ?g') = 4" "food ?g' = \<lparr>X = 3, Y = 3\<rparr>"
    "inBounds (food ?g')" "food ?g' \<notin> set (snake ?g')"
    by (simp_all add: draw_def meal_def sampled_def inBounds_def width_def height_def)
  with tick have first: "\<exists>g'. onTick meal = Inr g' \<and> score g' = 30 \<and>
      snake g' = [\<lparr>X = 6, Y = 5\<rparr>, \<lparr>X = 5, Y = 5\<rparr>, \<lparr>X = 4, Y = 5\<rparr>, \<lparr>X = 3, Y = 5\<rparr>] \<and>
      length (snake g') = 4 \<and> food g' = \<lparr>X = 3, Y = 3\<rparr> \<and>
      inBounds (food g') \<and> food g' \<notin> set (snake g')"
    by blast
  have active': "\<not> gameOver lastMeal" by (simp add: lastMeal_def)
  obtain rest where body': "snake lastMeal = \<lparr>X = 1, Y = 0\<rparr> # rest"
    using snake_lastMeal by blast
  have onto': "newHead (direction lastMeal) \<lparr>X = 1, Y = 0\<rparr> = food lastMeal"
    by (simp add: lastMeal_def newHead_def)
  from meal_grows_and_scores [OF active' body' onto'] lastMeal_grown_covers
  have hang: "onTick lastMeal = Inl NeverReturns" by blast
  from active body onto free first active' move_lastMeal_heading hang
  show ?thesis by blast
qed

text \<open>
  C4 as stated fails when the snake eats the last free cell: the new head is the food
  cell, but \<^verbatim>\<open>move\<close> never returns and no new food is placed.
\<close>

theorem last_meal_never_placed_counterexample:
  "\<not> gameOver lastMeal \<and>
   newHead (direction lastMeal) (hd (snake lastMeal)) = food lastMeal \<and>
   move lastMeal = Inl NeverReturns"
proof -
  have "\<not> gameOver lastMeal" by (simp add: lastMeal_def)
  with move_lastMeal_heading move_lastMeal show ?thesis by blast
qed

section \<open>The ticker case and the screen\<close>


lemma move_atWall:
  "move atWall = Inr (atWall\<lparr>snake := [\<lparr>X = - 1, Y = 5\<rparr>, \<lparr>X = 0, Y = 5\<rparr>]\<rparr>)"
  by (simp add: move_def atWall_def newHead_def Let_def)

lemma onTick_atWall: "onTick atWall = Inr crashed"
  by (simp add: onTick_def move_atWall checkCollisions_def Let_def draw_def frameOf_def)
     (simp add: atWall_def crashed_def)




section \<open>Walls and the tail\<close>

lemma onTick_wall:
  assumes "\<not> gameOver g" and "snake g = head # rest" and "inBounds (food g)"
    and "X (newHead (direction g) head) = - 1 \<or> X (newHead (direction g) head) = width \<or>
         Y (newHead (direction g) head) = - 1 \<or> Y (newHead (direction g) head) = height"
  shows "\<exists>g'. onTick g = Inr g' \<and> gameOver g' \<and>
     snake g' = newHead (direction g) head # butlast (snake g)"
proof -
  let ?h = "newHead (direction g) head"
  from assms(4) have out: "\<not> inBounds ?h"
    by (auto simp: inBounds_def)
  with assms(3) have "?h \<noteq> food g" by auto
  from onTick_steps [OF assms(1,2) this] out show ?thesis
    by (simp add: draw_def)
qed

text \<open>
  C5. On a tick of a running game whose food is on the grid, if the new head has
  \<open>x = -1\<close>, \<open>x = width\<close>, \<open>y = -1\<close> or \<open>y = height\<close>, the tick completes with
  \<^verbatim>\<open>gameOver\<close> set, and the snake of the final state is the moved one: the
  out-of-bounds head in front of the old snake without its last cell.
\<close>

theorem wall_ends_game:
  assumes "\<not> gameOver g" and "snake g = head # rest" and "inBounds (food g)"
    and "X (newHead (direction g) head) = - 1 \<or> X (newHead (direction g) head) = width \<or>
         Y (newHead (direction g) head) = - 1 \<or> Y (newHead (direction g) head) = height"
  shows "\<exists>g'. onTick g = Inr g' \<and> gameOver g' \<and>
     snake g' = newHead (direction g) head # butlast (snake g)"
  using assms by (rule onTick_wall)

theorem wall_ends_game_witness:
  "\<not> gameOver atWall \<and> snake atWall = [\<lparr>X = 0, Y = 5\<rparr>, \<lparr>X = 1, Y = 5\<rparr>] \<and>
   inBounds (food atWall) \<and> X (newHead (direction atWall) \<lparr>X = 0, Y = 5\<rparr>) = - 1 \<and>
   (\<exists>g'. onTick atWall = Inr g' \<and> gameOver g' \<and>
      snake g' = [\<lparr>X = - 1, Y = 5\<rparr>, \<lparr>X = 0, Y = 5\<rparr>])"
proof -
  have active: "\<not> gameOver atWall"
    and body: "snake atWall = [\<lparr>X = 0, Y = 5\<rparr>, \<lparr>X = 1, Y = 5\<rparr>]"
    and inside: "inBounds (food atWall)"
    and left: "X (newHead (direction atWall) \<lparr>X = 0, Y = 5\<rparr>) = - 1"
    by (simp_all add: atWall_def inBounds_def width_def height_def newHead_def)
  have "newHead (direction atWall) \<lparr>X = 0, Y = 5\<rparr> # butlast (snake atWall) =
      [\<lparr>X = - 1, Y = 5\<rparr>, \<lparr>X = 0, Y = 5\<rparr>]"
    by (simp add: atWall_def newHead_def)
  with wall_ends_game [OF active body inside disjI1, OF left]
  have "\<exists>g'. onTick atWall = Inr g' \<and> gameOver g' \<and>
      snake g' = [\<lparr>X = - 1, Y = 5\<rparr>, \<lparr>X = 0, Y = 5\<rparr>]"
    by simp
  with active body inside left show ?thesis by blast
qed

lemma last_not_in_butlast:
  assumes "distinct xs" and "xs \<noteq> []"
  shows "last xs \<notin> set (butlast xs)"
proof -
  from assms(2) have "xs = butlast xs @ [last xs]" by simp
  with assms(1) have "distinct (butlast xs @ [last xs])" by simp
  then show ?thesis by simp
qed

lemma onTick_tail:
  assumes "\<not> gameOver g" and "distinct (snake g)" and "2 \<le> length (snake g)"
    and "inBounds (newHead (direction g) (hd (snake g)))"
    and "newHead (direction g) (hd (snake g)) \<noteq> food g"
    and "newHead (direction g) (hd (snake g)) = last (snake g)"
  shows "\<exists>g'. onTick g = Inr g' \<and> \<not> gameOver g' \<and>
     snake g' = last (snake g) # butlast (snake g)"
proof -
  from assms(3) obtain head rest where body: "snake g = head # rest"
    by (cases "snake g") simp_all
  then have h: "hd (snake g) = head" and ne: "snake g \<noteq> []" by simp_all
  have "last (snake g) \<notin> set (butlast (snake g))"
    by (rule last_not_in_butlast [OF assms(2) ne])
  with onTick_steps [OF assms(1) body assms(5) [unfolded h]] assms(4,6) h
  show ?thesis by (simp add: draw_def)
qed

text \<open>
  C10. In a running game whose snake has at least two cells, all distinct (as they
  are in every running state the program reaches, see \<open>reached_tail_cell_is_vacated\<close>), if the
  new head is in bounds, is not the food and is the cell of the tail, the tick
  completes without setting \<^verbatim>\<open>gameOver\<close>: the tail has left its cell before
  \<^verbatim>\<open>checkCollisions\<close> looks at the snake.
\<close>

theorem tail_cell_is_vacated:
  assumes "\<not> gameOver g" and "distinct (snake g)" and "2 \<le> length (snake g)"
    and "inBounds (newHead (direction g) (hd (snake g)))"
    and "newHead (direction g) (hd (snake g)) \<noteq> food g"
    and "newHead (direction g) (hd (snake g)) = last (snake g)"
  shows "\<exists>g'. onTick g = Inr g' \<and> \<not> gameOver g' \<and>
     snake g' = last (snake g) # butlast (snake g)"
  using assms by (rule onTick_tail)

theorem tail_cell_is_vacated_witness:
  "\<not> gameOver coiled \<and> distinct (snake coiled) \<and> 2 \<le> length (snake coiled) \<and>
   inBounds (newHead (direction coiled) (hd (snake coiled))) \<and>
   newHead (direction coiled) (hd (snake coiled)) \<noteq> food coiled \<and>
   newHead (direction coiled) (hd (snake coiled)) = last (snake coiled) \<and>
   (\<exists>g'. onTick coiled = Inr g' \<and> \<not> gameOver g' \<and>
      snake g' = [\<lparr>X = 6, Y = 5\<rparr>, \<lparr>X = 5, Y = 5\<rparr>, \<lparr>X = 5, Y = 6\<rparr>, \<lparr>X = 6, Y = 6\<rparr>])"
proof -
  have a: "\<not> gameOver coiled" and b: "distinct (snake coiled)"
    and c: "2 \<le> length (snake coiled)"
    and d: "inBounds (newHead (direction coiled) (hd (snake coiled)))"
    and e: "newHead (direction coiled) (hd (snake coiled)) \<noteq> food coiled"
    and f: "newHead (direction coiled) (hd (snake coiled)) = last (snake coiled)"
    by (simp_all add: coiled_def newHead_def inBounds_def width_def height_def)
  have "last (snake coiled) # butlast (snake coiled) =
      [\<lparr>X = 6, Y = 5\<rparr>, \<lparr>X = 5, Y = 5\<rparr>, \<lparr>X = 5, Y = 6\<rparr>, \<lparr>X = 6, Y = 6\<rparr>]"
    by (simp add: coiled_def)
  with tail_cell_is_vacated [OF a b c d e f]
  have "\<exists>g'. onTick coiled = Inr g' \<and> \<not> gameOver g' \<and>
      snake g' = [\<lparr>X = 6, Y = 5\<rparr>, \<lparr>X = 5, Y = 5\<rparr>, \<lparr>X = 5, Y = 6\<rparr>, \<lparr>X = 6, Y = 6\<rparr>]"
    by simp
  with a b c d e f show ?thesis by blast
qed

section \<open>The states the program reaches\<close>

lemmas run_defs =
  main_def initializeGame_def onTick_def move_def checkCollisions_def draw_def frameOf_def
  newHead_def handleInput_def Let_def placeFood_unfold sampled_def freshGame_def
  width_def height_def

lemma main_twoMeals: "main twoMeals [Tick, Tick] = Inr afterTwoMeals"
  by (simp add: run_defs twoMeals_def afterTwoMeals_def)

lemma main_reversal:
  "main twoMeals [Tick, Tick, Input ''UP'', Input ''LEFT''] = Inr (afterTwoMeals\<lparr>direction := ''LEFT''\<rparr>)"
  by (simp add: run_defs twoMeals_def afterTwoMeals_def)


lemma newHead_near:
  assumes "inBounds head"
  shows "- 1 \<le> X (newHead d head)" "X (newHead d head) \<le> width"
    "- 1 \<le> Y (newHead d head)" "Y (newHead d head) \<le> height"
  using assms by (simp_all add: newHead_def inBounds_def Let_def)

lemma inBounds_near:
  assumes "inBounds p"
  shows "- 1 \<le> X p" "X p \<le> width" "- 1 \<le> Y p" "Y p \<le> height"
  using assms by (simp_all add: inBounds_def)

lemma invariant_handleInput: "invariant g \<Longrightarrow> invariant (handleInput key g)"
  by (simp add: invariant_def handleInput_keeps)

lemma invariant_step:
  assumes inv: "invariant g" and active: "\<not> gameOver g" and body: "snake g = head # rest"
    and other: "newHead (direction g) head \<noteq> food g"
  shows "invariant (draw (g\<lparr>snake := newHead (direction g) head # butlast (snake g),
           gameOver := \<not> inBounds (newHead (direction g) head) \<or>
             newHead (direction g) head \<in> set (butlast (snake g))\<rparr>))"
proof -
  let ?h = "newHead (direction g) head"
  from inv active have d: "distinct (snake g)" and b: "\<forall>p \<in> set (snake g). inBounds p"
    and f: "inBounds (food g)" "food g \<notin> set (snake g)"
    and s: "score g = 10 * (int (length (snake g)) - 1)"
    by (simp_all add: invariant_def)
  from b body have "inBounds head" by simp
  note near = newHead_near [OF this, of "direction g"]
  have "distinct (butlast (snake g))" using d by (rule distinct_butlast)
  moreover have "\<forall>p \<in> set (butlast (snake g)). inBounds p"
    using b by (blast dest: in_set_butlastD)
  moreover have "food g \<notin> set (butlast (snake g))"
    using f(2) by (blast dest: in_set_butlastD)
  moreover have "length (butlast (snake g)) = length rest"
    using body by simp
  ultimately show ?thesis
    using near f(1) other s body
    by (simp add: invariant_def draw_def)
qed

lemma invariant_meal:
  assumes inv: "invariant g" and active: "\<not> gameOver g" and body: "snake g = head # rest"
    and onto: "newHead (direction g) head = food g"
    and placed: "placeFood (g\<lparr>snake := food g # snake g, score := score g + 10\<rparr>) = Some g2"
  shows "invariant (draw (g2\<lparr>gameOver := \<not> inBounds (food g) \<or> food g \<in> set (snake g)\<rparr>))"
proof -
  from inv active have d: "distinct (snake g)" and b: "\<forall>p \<in> set (snake g). inBounds p"
    and f: "inBounds (food g)" "food g \<notin> set (snake g)"
    and s: "score g = 10 * (int (length (snake g)) - 1)"
    by (simp_all add: invariant_def)
  note near = inBounds_near [OF f(1)]
  note props = placeFood_Some_props [OF placed]
  from props have "snake g2 = food g # snake g" "score g2 = score g + 10"
    "inBounds (food g2)" "food g2 \<notin> set (food g # snake g)"
    by simp_all
  then show ?thesis
    using near f d b s body
    by (simp add: invariant_def draw_def)
qed

lemma invariant_onTick:
  assumes inv: "invariant g" and tick: "onTick g = Inr g'"
  shows "invariant g'"
proof (cases "gameOver g")
  case True
  with tick have "g' = g" by (simp add: onTick_over)
  with inv show ?thesis by simp
next
  case False
  from inv obtain head rest where body: "snake g = head # rest"
    by (cases "snake g") (simp_all add: invariant_def)
  show ?thesis
  proof (cases "newHead (direction g) head = food g")
    case other: False
    from tick invariant_step [OF inv False body other] show ?thesis
      by (simp add: onTick_steps [OF False body other])
  next
    case onto: True
    let ?g1 = "g\<lparr>snake := food g # snake g, score := score g + 10\<rparr>"
    show ?thesis
    proof (cases "placeFood ?g1")
      case None
      from tick onTick_eats_hangs [OF False body onto None] show ?thesis by simp
    next
      case (Some g2)
      from tick invariant_meal [OF inv False body onto Some] show ?thesis
        by (simp add: onTick_eats [OF False body onto Some])
    qed
  qed
qed

lemma invariant_gameLoop:
  "invariant g \<Longrightarrow> gameLoop evs g = Inr g' \<Longrightarrow> invariant g'"
proof (induction evs arbitrary: g)
  case Nil
  then show ?case by simp
next
  case (Cons ev evs)
  show ?case
  proof (cases ev)
    case Tick
    with Cons.prems(2) obtain g1 where "onTick g = Inr g1" "gameLoop evs g1 = Inr g'"
      by (auto split: sum.splits)
    with Cons.IH invariant_onTick [OF Cons.prems(1)] show ?thesis by blast
  next
    case (Input key)
    with Cons.prems(2) have "gameLoop evs (handleInput key g) = Inr g'" by simp
    with Cons.IH invariant_handleInput [OF Cons.prems(1)] show ?thesis by blast
  next
    case Quit
    with Cons.prems show ?thesis by simp
  qed
qed

lemma invariant_initializeGame:
  assumes "initializeGame seed = Inr g"
  shows "invariant g"
proof -
  from assms have placed: "placeFood (freshGame seed) = Some g"
    by (simp add: initializeGame_def split: option.splits)
  note props = placeFood_Some_props [OF placed]
  have "snake (freshGame seed) = [\<lparr>X = 10, Y = 10\<rparr>]" "score (freshGame seed) = 0"
    "\<not> gameOver (freshGame seed)"
    by (simp_all add: freshGame_def width_def height_def)
  with props show ?thesis
    by (simp add: invariant_def inBounds_def width_def height_def)
qed

lemma reached_invariant:
  assumes "main seed evs = Inr g"
  shows "invariant g"
proof -
  from assms obtain g0 where "initializeGame seed = Inr g0" "gameLoop evs g0 = Inr g"
    by (auto simp: main_def split: sum.splits)
  with invariant_initializeGame invariant_gameLoop show ?thesis by blast
qed

lemma grid_card:
  "finite {p. inBounds p}" "card {p. inBounds p} = 500"
proof -
  let ?cell = "\<lambda>(x, y). \<lparr>X = int x, Y = int y\<rparr>"
  let ?grid = "?cell ` ({..<25} \<times> {..<20})"
  have "{p. inBounds p} = ?grid"
  proof (intro set_eqI iffI)
    fix p assume "p \<in> {p. inBounds p}"
    then have "(nat (X p), nat (Y p)) \<in> {..<25} \<times> {..<20}"
      and "p = ?cell (nat (X p), nat (Y p))"
      by (auto simp: inBounds_def width_def height_def)
    then show "p \<in> ?grid" by (rule_tac image_eqI)
  next
    fix p assume "p \<in> ?grid"
    then show "p \<in> {p. inBounds p}"
      by (auto simp: inBounds_def width_def height_def)
  qed
  moreover have "inj_on ?cell ({..<25} \<times> {..<20})"
    by (auto simp: inj_on_def)
  then have "card ?grid = 500" by (simp add: card_image)
  ultimately show "finite {p. inBounds p}" "card {p. inBounds p} = 500"
    by simp_all
qed

lemma length_on_grid:
  assumes "distinct cells" and "\<forall>p \<in> set cells. inBounds p"
  shows "length cells \<le> 500"
proof -
  from assms(2) have "set cells \<subseteq> {p. inBounds p}" by blast
  then have "card (set cells) \<le> card {p. inBounds p}"
    by (rule card_mono [OF grid_card(1)])
  with assms(1) show ?thesis
    by (simp add: distinct_card grid_card(2))
qed

lemma reached_bounds:
  assumes "main seed evs = Inr g"
  shows "(\<forall>p \<in> set (snake g). - 1 \<le> X p \<and> X p \<le> 25 \<and> - 1 \<le> Y p \<and> Y p \<le> 20) \<and>
     inBounds (food g) \<and> 0 \<le> score g \<and> score g \<le> 5000"
proof -
  from reached_invariant [OF assms] have
    ne: "snake g \<noteq> []" and f: "inBounds (food g)"
    and d: "distinct (tl (snake g))" and b: "\<forall>p \<in> set (tl (snake g)). inBounds p"
    and h: "- 1 \<le> X (hd (snake g))" "X (hd (snake g)) \<le> width"
      "- 1 \<le> Y (hd (snake g))" "Y (hd (snake g)) \<le> height"
    and s: "score g = 10 * (int (length (snake g)) - 1)"
    by (simp_all add: invariant_def)
  from ne obtain head rest where body: "snake g = head # rest"
    by (cases "snake g") simp_all
  from length_on_grid [OF d b] body have "length rest \<le> 500" by simp
  with s body have "0 \<le> score g" "score g \<le> 5000" by simp_all
  moreover have "\<forall>p \<in> set (snake g). - 1 \<le> X p \<and> X p \<le> 25 \<and> - 1 \<le> Y p \<and> Y p \<le> 20"
    using b h body by (auto simp: inBounds_def width_def height_def)
  ultimately show ?thesis using f by simp
qed

text \<open>
  The two properties of a tick above, for the states the program reaches: there the
  food is on the grid and a running snake is distinct.
\<close>

lemma reached_wall_ends_game:
  assumes "main seed evs = Inr g" and "\<not> gameOver g"
    and "X (newHead (direction g) (hd (snake g))) = - 1 \<or>
         X (newHead (direction g) (hd (snake g))) = width \<or>
         Y (newHead (direction g) (hd (snake g))) = - 1 \<or>
         Y (newHead (direction g) (hd (snake g))) = height"
  shows "\<exists>g'. onTick g = Inr g' \<and> gameOver g' \<and>
     snake g' = newHead (direction g) (hd (snake g)) # butlast (snake g)"
proof -
  from reached_invariant [OF assms(1)] have "snake g \<noteq> []" and f: "inBounds (food g)"
    by (simp_all add: invariant_def)
  then obtain head rest where body: "snake g = head # rest"
    by (cases "snake g") simp_all
  from onTick_wall [OF assms(2) body f] assms(3) body show ?thesis by simp
qed

lemma reached_tail_cell_is_vacated:
  assumes "main seed evs = Inr g" and "\<not> gameOver g" and "2 \<le> length (snake g)"
    and "inBounds (newHead (direction g) (hd (snake g)))"
    and "newHead (direction g) (hd (snake g)) \<noteq> food g"
    and "newHead (direction g) (hd (snake g)) = last (snake g)"
  shows "\<exists>g'. onTick g = Inr g' \<and> \<not> gameOver g' \<and>
     snake g' = last (snake g) # butlast (snake g)"
proof -
  from reached_invariant [OF assms(1)] assms(2) have "distinct (snake g)"
    by (simp add: invariant_def)
  from onTick_tail [OF assms(2) this assms(3-6)] show ?thesis .
qed

text \<open>
  C8. In every state that the program reaches after handling some events, if the game
  is running, the cells of the snake are pairwise distinct and there is at least one.
\<close>

theorem running_snake_is_distinct:
  assumes "main seed evs = Inr g" and "\<not> gameOver g"
  shows "distinct (snake g) \<and> 1 \<le> length (snake g)"
proof -
  from reached_invariant [OF assms(1)] assms(2)
  have "distinct (snake g)" "snake g \<noteq> []"
    by (simp_all add: invariant_def)
  then show ?thesis by (cases "snake g") simp_all
qed

theorem running_snake_is_distinct_witness:
  "main twoMeals [Tick, Tick] = Inr afterTwoMeals \<and> \<not> gameOver afterTwoMeals \<and>
   distinct (snake afterTwoMeals) \<and> 1 \<le> length (snake afterTwoMeals) \<and>
   length (snake afterTwoMeals) = 3"
proof -
  have active: "\<not> gameOver afterTwoMeals" and three: "length (snake afterTwoMeals) = 3"
    by (simp_all add: afterTwoMeals_def)
  from running_snake_is_distinct [OF main_twoMeals active] main_twoMeals active three
  show ?thesis by blast
qed

text \<open>
  C9. In every state that the program reaches after handling some events, the food is
  not on a cell of the snake.
\<close>

theorem food_is_never_on_snake:
  assumes "main seed evs = Inr g"
  shows "food g \<notin> set (snake g)"
  using reached_invariant [OF assms] by (simp add: invariant_def)

theorem food_is_never_on_snake_witness:
  "main twoMeals [Tick, Tick, Input ''UP'', Input ''LEFT''] =
     Inr (afterTwoMeals\<lparr>direction := ''LEFT''\<rparr>) \<and>
   food (afterTwoMeals\<lparr>direction := ''LEFT''\<rparr>) = \<lparr>X = 0, Y = 0\<rparr> \<and>
   food (afterTwoMeals\<lparr>direction := ''LEFT''\<rparr>) \<notin> set (snake (afterTwoMeals\<lparr>direction := ''LEFT''\<rparr>))"
proof -
  have "food (afterTwoMeals\<lparr>direction := ''LEFT''\<rparr>) = \<lparr>X = 0, Y = 0\<rparr>"
    by (simp add: afterTwoMeals_def)
  with food_is_never_on_snake [OF main_reversal] main_reversal show ?thesis by blast
qed

section \<open>Key presses between two ticks\<close>

text \<open>
  \<^verbatim>\<open>handleInput\<close> compares a request with the variable \<^verbatim>\<open>direction\<close>, and an accepted
  request overwrites that variable at once. The first request after a tick is
  therefore judged against the direction of that tick, as the specification has it;
  a later request before the next tick is judged against the request accepted before
  it.
\<close>

lemma handleInput_stored:
  "handleInput key g =
     (if key \<in> {''UP'', ''DOWN'', ''LEFT'', ''RIGHT''} \<and> key \<noteq> opposite (direction g)
      then g\<lparr>direction := key\<rparr> else g)"
  by (auto simp: handleInput_def opposite_def)

lemma gameLoop_inputs:
  "gameLoop (map Input keys) g =
     Inr (g\<lparr>direction :=
            foldl (\<lambda>d key. if key \<in> {''UP'', ''DOWN'', ''LEFT'', ''RIGHT''} \<and> key \<noteq> opposite d
                            then key else d)
              (direction g) keys\<rparr>)"
proof (induction keys arbitrary: g)
  case Nil
  show ?case by simp
next
  case (Cons key keys)
  show ?case
    by (simp add: Cons.IH) (simp add: handleInput_stored)
qed

lemma first_request_as_specified:
  assumes "key \<in> {''UP'', ''DOWN'', ''LEFT'', ''RIGHT''}"
  shows "direction (handleInput key g) = spec_pendingAfter (direction g) [key]"
  using assms
  by (auto simp: handleInput_stored spec_pendingAfter_def spec_SetPendingDirection_def)

lemma main_turn:
  "main twoMeals [Tick, Tick, Input ''UP''] = Inr (afterTwoMeals\<lparr>direction := ''UP''\<rparr>)"
  by (simp add: run_defs twoMeals_def afterTwoMeals_def)

lemma main_reversed_tick:
  "\<exists>g'. main twoMeals [Tick, Tick, Input ''UP'', Input ''LEFT'', Tick] = Inr g' \<and> gameOver g' \<and>
     snake g' = [\<lparr>X = 11, Y = 10\<rparr>, \<lparr>X = 12, Y = 10\<rparr>, \<lparr>X = 11, Y = 10\<rparr>]"
  by (simp add: run_defs twoMeals_def afterTwoMeals_def)

text \<open>
  C2, at an input where the program departs from it. The program starts with the
  random source \<open>twoMeals\<close> and handles two ticks: the snake has three cells and the
  last tick moved it right. The keys UP and LEFT then arrive before the next tick. By
  C2 the request LEFT, the opposite of the direction of the last tick, is not valid
  and UP is retained (\<open>spec_pendingAfter\<close>). The program retains LEFT, and the next tick
  moves the head back onto the snake's second cell: the game is over.
\<close>

theorem second_key_reverses_running_snake:
  "main twoMeals [Tick, Tick] = Inr afterTwoMeals \<and>
   direction afterTwoMeals = ''RIGHT'' \<and>
   main twoMeals [Tick, Tick, Input ''UP'', Input ''LEFT''] =
     Inr (afterTwoMeals\<lparr>direction := ''LEFT''\<rparr>) \<and>
   spec_pendingAfter ''RIGHT'' [''UP'', ''LEFT''] = ''UP'' \<and>
   (\<exists>g'. main twoMeals [Tick, Tick, Input ''UP'', Input ''LEFT'', Tick] = Inr g' \<and>
      gameOver g' \<and>
      snake g' = [\<lparr>X = 11, Y = 10\<rparr>, \<lparr>X = 12, Y = 10\<rparr>, \<lparr>X = 11, Y = 10\<rparr>])"
proof -
  have "direction afterTwoMeals = ''RIGHT''" by (simp add: afterTwoMeals_def)
  moreover have "spec_pendingAfter ''RIGHT'' [''UP'', ''LEFT''] = ''UP''"
    by (simp add: spec_pendingAfter_def spec_SetPendingDirection_def opposite_def)
  ultimately show ?thesis
    using main_twoMeals main_reversal main_reversed_tick by blast
qed

text \<open>
  C7, at an input where the program departs from it. After the same two ticks (the
  current direction is RIGHT) and the key UP, the request LEFT is the opposite of the
  current direction, yet \<^verbatim>\<open>handleInput\<close> changes the state; the request DOWN is not the
  opposite of the current direction, yet \<^verbatim>\<open>handleInput\<close> leaves the state as it is.
\<close>

theorem handleInput_judges_by_stored_direction:
  "main twoMeals [Tick, Tick, Input ''UP''] = Inr (afterTwoMeals\<lparr>direction := ''UP''\<rparr>) \<and>
   ''LEFT'' = opposite (direction afterTwoMeals) \<and>
   handleInput ''LEFT'' (afterTwoMeals\<lparr>direction := ''UP''\<rparr>) =
     afterTwoMeals\<lparr>direction := ''LEFT''\<rparr> \<and>
   ''DOWN'' \<noteq> opposite (direction afterTwoMeals) \<and>
   handleInput ''DOWN'' (afterTwoMeals\<lparr>direction := ''UP''\<rparr>) =
     afterTwoMeals\<lparr>direction := ''UP''\<rparr>"
proof -
  have "''LEFT'' = opposite (direction afterTwoMeals)"
    "''DOWN'' \<noteq> opposite (direction afterTwoMeals)"
    by (simp_all add: afterTwoMeals_def opposite_def)
  moreover have "handleInput ''LEFT'' (afterTwoMeals\<lparr>direction := ''UP''\<rparr>) =
      afterTwoMeals\<lparr>direction := ''LEFT''\<rparr>"
    "handleInput ''DOWN'' (afterTwoMeals\<lparr>direction := ''UP''\<rparr>) =
      afterTwoMeals\<lparr>direction := ''UP''\<rparr>"
    by (simp_all add: handleInput_def)
  ultimately show ?thesis using main_turn by blast
qed

section \<open>The loop once the game is over\<close>

lemma gameLoop_ticks_over: "gameOver g \<Longrightarrow> gameLoop (replicate n Tick) g = Inr g"
  by (induction n) (simp_all add: onTick_over)

lemma gameLoop_over:
  "gameOver g \<Longrightarrow>
   \<exists>g'. gameLoop evs g = Inr g' \<and> snake g' = snake g \<and> food g' = food g \<and>
        score g' = score g \<and> gameOver g'"
proof (induction evs arbitrary: g)
  case Nil
  then show ?case by simp
next
  case (Cons ev evs)
  show ?case
  proof (cases ev)
    case Tick
    with Cons show ?thesis by (simp add: onTick_over)
  next
    case (Input key)
    from Cons.prems have "gameOver (handleInput key g)"
      by (simp add: handleInput_keeps)
    from Cons.IH [OF this] Input show ?thesis
      by (simp add: handleInput_keeps)
  next
    case Quit
    with Cons.prems show ?thesis by simp
  qed
qed

text \<open>
  C6. Once \<^verbatim>\<open>gameOver\<close> is set, the ticker case of the loop leaves the state as it
  is, for any number of ticks; and whatever events the loop receives from then on
  (ticks, key presses, quit), it returns a state with the same snake, food and score
  in which \<^verbatim>\<open>gameOver\<close> is still set.
\<close>

theorem game_over_is_final:
  "gameOver g \<Longrightarrow>
   onTick g = Inr g \<and>
   gameLoop (replicate n Tick) g = Inr g \<and>
   (\<exists>g'. gameLoop evs g = Inr g' \<and> snake g' = snake g \<and> food g' = food g \<and>
         score g' = score g \<and> gameOver g')"
  by (simp add: onTick_over gameLoop_ticks_over gameLoop_over)

theorem game_over_is_final_witness:
  "gameOver crashed \<and>
   onTick crashed = Inr crashed \<and>
   gameLoop (replicate 3 Tick) crashed = Inr crashed \<and>
   (\<exists>g'. gameLoop [Tick, Input ''UP'', Tick, Input ''RIGHT''] crashed = Inr g' \<and>
         snake g' = snake crashed \<and> food g' = food crashed \<and>
         score g' = score crashed \<and> gameOver g')"
proof -
  have over: "gameOver crashed" by (simp add: crashed_def)
  from over game_over_is_final [OF over, of 3 "[Tick, Input ''UP'', Tick, Input ''RIGHT'']"]
  show ?thesis by (rule conjI)
qed

end
